theory Spec2Isabelle
  imports Main
begin

section \<open>The table model: \<open>DataModel\<close>\<close>

text \<open>
  \<open>DataModel\<close> (src/nomoc.cpp, lines 25--62) keeps its records in the member
  \<open>QVector<QStringList> rows\<close>. A record is a \<open>QStringList\<close>, modelled as a list of
  strings; the store is the list of records, in insertion order.

  The class tells its observers about structural changes by calling the
  notification interface it inherits from the toolkit's table model base class:
  \<open>beginInsertRows\<close>/\<open>endInsertRows\<close> around an insertion and
  \<open>beginRemoveRows\<close>/\<open>endRemoveRows\<close> around a removal. The embedding records these
  calls, with their first and last row arguments, in the order the code makes them.

  Sizes and row numbers are \<open>int\<close> values in the code; the embedding uses
  mathematical integers, which agree with them for every store of fewer than
  \<open>2^31\<close> records.
\<close>

type_synonym QStringList = "string list"

datatype Notification =
    BeginInsertRows int int
  | EndInsertRows
  | BeginRemoveRows int int
  | EndRemoveRows

record DataModel =
  rows :: "QStringList list"
  notifications :: "Notification list"

definition beginInsertRows :: "int \<Rightarrow> int \<Rightarrow> DataModel \<Rightarrow> DataModel" where
  "beginInsertRows first lst m = m\<lparr>notifications := notifications m @ [BeginInsertRows first lst]\<rparr>"

definition endInsertRows :: "DataModel \<Rightarrow> DataModel" where
  "endInsertRows m = m\<lparr>notifications := notifications m @ [EndInsertRows]\<rparr>"

definition beginRemoveRows :: "int \<Rightarrow> int \<Rightarrow> DataModel \<Rightarrow> DataModel" where
  "beginRemoveRows first lst m = m\<lparr>notifications := notifications m @ [BeginRemoveRows first lst]\<rparr>"

definition endRemoveRows :: "DataModel \<Rightarrow> DataModel" where
  "endRemoveRows m = m\<lparr>notifications := notifications m @ [EndRemoveRows]\<rparr>"

text \<open>\<open>int rowCount(const QModelIndex &) const { return rows.size(); }\<close>\<close>

definition rowCount :: "DataModel \<Rightarrow> int" where
  "rowCount m = int (length (rows m))"

text \<open>\<open>int columnCount(const QModelIndex &) const { return 3; }\<close>\<close>

definition columnCount :: "DataModel \<Rightarrow> int" where
  "columnCount m = 3"

text \<open>
  \<open>data\<close> (lines 32--36) reads one field. Its arguments are a \<open>QModelIndex\<close> and an
  item role. The index type belongs to the toolkit; the code uses its \<open>row()\<close>,
  \<open>column()\<close> and \<open>isValid()\<close>, and the toolkit documents an index as valid when it
  belongs to a model and its row and column are not negative. The role is an
  \<open>int\<close>, compared with the toolkit's constant \<open>Qt::DisplayRole\<close>, which is 0
  (\<open>Qt::EditRole\<close> is 2). The result is a \<open>QVariant\<close>: \<open>return {}\<close> gives the
  invalid (empty) variant, the last line gives a variant holding the string.

  \<open>rows[k]\<close> and \<open>rows[k][c]\<close> are unchecked accesses of the toolkit's containers:
  outside the container they are an error of the program. The embedding makes
  that error a value, \<open>Inl OutOfRange\<close>, so that a read outside the store shows
  in the result of \<open>data\<close>.
\<close>

record QModelIndex =
  index_row :: int
  index_column :: int
  index_has_model :: bool

definition isValid :: "QModelIndex \<Rightarrow> bool" where
  "isValid i = (0 \<le> index_row i \<and> 0 \<le> index_column i \<and> index_has_model i)"

text \<open>
  A caller has two ways to an index: the default-constructed one, with row and
  column -1 and no model, and the ones the model hands out for a row and a
  column through the toolkit's \<open>createIndex\<close>, which carry the model. The read of
  the field at a row and a column with the display role, \<open>data\<close> at
  \<open>createIndex row column\<close> and \<open>DisplayRole\<close>, is what the table view shows in a cell.
\<close>

definition createIndex :: "int \<Rightarrow> int \<Rightarrow> QModelIndex" where
  "createIndex k c = \<lparr>index_row = k, index_column = c, index_has_model = True\<rparr>"

definition DisplayRole :: int where
  "DisplayRole = 0"

definition EditRole :: int where
  "EditRole = 2"

datatype QVariant = Invalid | StringValue string

datatype fault = OutOfRange

definition at :: "'a list \<Rightarrow> int \<Rightarrow> fault + 'a" where
  "at xs k = (if 0 \<le> k \<and> k < int (length xs) then Inr (xs ! nat k) else Inl OutOfRange)"

definition data :: "DataModel \<Rightarrow> QModelIndex \<Rightarrow> int \<Rightarrow> fault + QVariant" where
  "data m i r =
     (if \<not> isValid i \<or> r \<noteq> DisplayRole then Inr Invalid
      else if index_row i \<ge> int (length (rows m)) then Inr Invalid
      else
        (case at (rows m) (index_row i) of
           Inl e \<Rightarrow> Inl e
         | Inr record_fields \<Rightarrow>
             if index_column i \<ge> int (length record_fields) then Inr Invalid
             else
               (case at record_fields (index_column i) of
                  Inl e \<Rightarrow> Inl e
                | Inr s \<Rightarrow> Inr (StringValue s))))"

text \<open>
  \<open>insertRowData\<close> (lines 46--50): announce the insertion of row number
  \<open>rows.size()\<close>, append the record, close the announcement.
\<close>

definition insertRowData :: "QStringList \<Rightarrow> DataModel \<Rightarrow> DataModel" where
  "insertRowData r m =
     (let m1 = beginInsertRows (int (length (rows m))) (int (length (rows m))) m;
          m2 = m1\<lparr>rows := rows m1 @ [r]\<rparr>
      in endInsertRows m2)"

text \<open>
  \<open>removeLastRow\<close> (lines 53--61): on an empty store return \<open>false\<close> at once;
  otherwise announce the removal of row \<open>rows.size() - 1\<close>, drop the last record,
  close the announcement and return \<open>true\<close>. The result pairs the returned flag with
  the model afterwards.
\<close>

definition removeLastRow :: "DataModel \<Rightarrow> bool \<times> DataModel" where
  "removeLastRow m =
     (if rows m = [] then (False, m)
      else
        (let r = int (length (rows m)) - 1;
             m1 = beginRemoveRows r r m;
             m2 = m1\<lparr>rows := butlast (rows m1)\<rparr>
         in (True, endRemoveRows m2)))"

section \<open>The undo command: \<open>AddRowCommand\<close>\<close>

text \<open>
  An \<open>AddRowCommand\<close> (lines 67--81) stores the record to insert in its member
  \<open>row\<close>. Its other member, the pointer \<open>model\<close>, is the address of the one
  \<open>DataModel\<close> of the main window in every command the program creates, so the
  embedding passes that model to \<open>redo\<close> and \<open>undo\<close> and returns it updated.
  \<open>undo\<close> calls \<open>removeLastRow\<close> and drops the flag it returns.
\<close>

record AddRowCommand =
  row :: QStringList

definition AddRowCommand_redo :: "AddRowCommand \<Rightarrow> DataModel \<Rightarrow> DataModel" where
  "AddRowCommand_redo c m = insertRowData (row c) m"

definition AddRowCommand_undo :: "AddRowCommand \<Rightarrow> DataModel \<Rightarrow> DataModel" where
  "AddRowCommand_undo c m = snd (removeLastRow m)"

section \<open>The undo controller\<close>

text \<open>
  Modelled from the spec: the undo controller is the toolkit's undo stack (the
  member \<open>QUndoStack undo\<close> of the main window), whose code is not in src/; only
  its callers are. Section 3 of the specification gives its data: an ordered
  sequence of undo operations plus a cursor position separating the done from
  the undone ones, the cursor always in \<open>[0, length]\<close> (\<open>stack_ok\<close>). The
  operations of the program are \<open>AddRowCommand\<close>s acting on the main window's model,
  so the controller's operations take and return the main window: its model
  and its undo stack. Under \<open>stack_ok\<close> the operation that \<open>undo\<close> or \<open>redo\<close> picks
  from the history is inside it; every statement below about these two either
  assumes \<open>stack_ok\<close> or starts from the empty history, where it holds.
\<close>

record QUndoStack =
  history :: "AddRowCommand list"
  cursor :: nat

record MainWindow =
  model :: DataModel
  undo :: QUndoStack

definition stack_ok :: "QUndoStack \<Rightarrow> bool" where
  "stack_ok s = (cursor s \<le> length (history s))"

text \<open>
  Modelled from the spec: \<open>QUndoStack::push\<close>, missing from src/. Section 4.2 reads:
  \<open>push(op)\<close>: execute \<open>op.redo()\<close>; discard any ops after cursor (redo tail lost
  permanently); append \<open>op\<close>; advance cursor past it.
\<close>

definition push :: "AddRowCommand \<Rightarrow> MainWindow \<Rightarrow> MainWindow" where
  "push op w =
     (let m1 = AddRowCommand_redo op (model w);
          kept = take (cursor (undo w)) (history (undo w))
      in \<lparr>model = m1, undo = \<lparr>history = kept @ [op], cursor = cursor (undo w) + 1\<rparr>\<rparr>)"

text \<open>
  Modelled from the spec: \<open>QUndoStack::undo\<close>, missing from src/. Section 4.2 reads:
  \<open>undo()\<close>: no-op if cursor == 0; otherwise invoke \<open>op.undo()\<close> at cursor-1,
  decrement cursor.
\<close>

definition undo_call :: "MainWindow \<Rightarrow> MainWindow" where
  "undo_call w =
     (if cursor (undo w) = 0 then w
      else
        \<lparr>model = AddRowCommand_undo (history (undo w) ! (cursor (undo w) - 1)) (model w),
         undo = (undo w)\<lparr>cursor := cursor (undo w) - 1\<rparr>\<rparr>)"

text \<open>
  Modelled from the spec: \<open>QUndoStack::redo\<close>, missing from src/. Section 4.2 reads:
  \<open>redo()\<close>: no-op if cursor == length; otherwise invoke \<open>op.redo()\<close> at cursor,
  increment cursor.
\<close>

definition redo_call :: "MainWindow \<Rightarrow> MainWindow" where
  "redo_call w =
     (if cursor (undo w) = length (history (undo w)) then w
      else
        \<lparr>model = AddRowCommand_redo (history (undo w) ! cursor (undo w)) (model w),
         undo = (undo w)\<lparr>cursor := cursor (undo w) + 1\<rparr>\<rparr>)"

text \<open>
  A sequence of calls made through the controller, run from left to right, and
  the main window as its constructor leaves it: no record, no notification
  made, an empty history.
\<close>

datatype Call = Push AddRowCommand | Undo | Redo

fun call :: "Call \<Rightarrow> MainWindow \<Rightarrow> MainWindow" where
  "call (Push op) w = push op w"
| "call Undo w = undo_call w"
| "call Redo w = redo_call w"

fun calls :: "Call list \<Rightarrow> MainWindow \<Rightarrow> MainWindow" where
  "calls [] w = w"
| "calls (c # cs) w = calls cs (call c w)"

definition initial :: MainWindow where
  "initial = \<lparr>model = \<lparr>rows = [], notifications = []\<rparr>, undo = \<lparr>history = [], cursor = 0\<rparr>\<rparr>"

text \<open>
  The effective operations of a controller state are those of its history before
  the cursor; applying operations directly is running their \<open>redo\<close> on the model,
  one after the other, with no controller.
\<close>

definition effective :: "QUndoStack \<Rightarrow> AddRowCommand list" where
  "effective s = take (cursor s) (history s)"

fun apply_directly :: "AddRowCommand list \<Rightarrow> DataModel \<Rightarrow> DataModel" where
  "apply_directly [] m = m"
| "apply_directly (op # ops) m = apply_directly ops (AddRowCommand_redo op m)"

text \<open>
  The controller and the store stay in step: the cursor is inside the history
  and the records of the store are those of the operations before the cursor.
\<close>

definition in_step :: "MainWindow \<Rightarrow> bool" where
  "in_step w = (stack_ok (undo w) \<and> rows (model w) = map row (effective (undo w)))"

section \<open>The Add Row action\<close>

text \<open>
  The handler of the Add Row button (lines 172--182) pushes a new command whose
  record is \<open>QString::number(model.rowCount({}))\<close>, \<open>"Item"\<close> and the current time
  as text. The time comes from the clock and is an argument here.
  \<open>QString::number\<close> belongs to the toolkit: for an \<open>int\<close> it gives the decimal
  digits, after a minus sign for a negative number (\<open>digit_char\<close> is only ever
  applied to a number below 10). The line the handler then
  appends to the log file touches neither the model nor the undo stack and is
  left out.
\<close>

definition digit_char :: "nat \<Rightarrow> char" where
  "digit_char d = ''0123456789'' ! d"

fun digits :: "nat \<Rightarrow> string" where
  "digits n = (if n < 10 then [digit_char n] else digits (n div 10) @ [digit_char (n mod 10)])"

declare digits.simps [simp del]

definition number :: "int \<Rightarrow> string" where
  "number n = (if n < 0 then CHR ''-'' # digits (nat (- n)) else digits (nat n))"

definition add_clicked :: "string \<Rightarrow> MainWindow \<Rightarrow> MainWindow" where
  "add_clicked now w = push \<lparr>row = [number (rowCount (model w)), ''Item'', now]\<rparr> w"

text \<open>What the user can do to the store: click Add Row, choose Undo, choose Redo.\<close>

datatype UserAction = AddRow string | EditUndo | EditRedo

fun user_action :: "UserAction \<Rightarrow> MainWindow \<Rightarrow> MainWindow" where
  "user_action (AddRow now) w = add_clicked now w"
| "user_action EditUndo w = undo_call w"
| "user_action EditRedo w = redo_call w"

fun user_actions :: "UserAction list \<Rightarrow> MainWindow \<Rightarrow> MainWindow" where
  "user_actions [] w = w"
| "user_actions (a # as) w = user_actions as (user_action a w)"

text \<open>
  Records are \<open>numbered\<close> when each has three fields of which the first two are the
  decimal string of its position and \<open>"Item"\<close>. A main window is \<open>consistent\<close>
  when it is in step and the records of its whole history are numbered.
\<close>

definition numbered :: "QStringList list \<Rightarrow> bool" where
  "numbered rs =
     (map (\<lambda>r. (length r, take 2 r)) rs =
      map (\<lambda>k. (3::nat, [number (int k), ''Item''])) [0..<length rs])"

definition consistent :: "MainWindow \<Rightarrow> bool" where
  "consistent w = (in_step w \<and> numbered (map row (history (undo w))))"

section \<open>The background task: \<open>Worker\<close>\<close>

text \<open>
  \<open>Worker::run\<close> (lines 90--96) is the loop
  \<^verbatim>\<open>for (int i=0; i<=100 && !stop; i++) { QThread::msleep(50); emit progress(i); }\<close>
  followed by \<open>emit finished()\<close>. \<open>cancel\<close> (line 97) sets the atomic flag \<open>stop\<close>,
  and is called from another thread, at any moment.

  The run is a small machine. Its state holds the flag, the loop variable, the
  signals emitted so far and the place the run has reached: about to evaluate
  the loop condition (\<open>AtTest\<close>), inside the body, asleep before the emission
  (\<open>InBody\<close>), or returned after \<open>finished\<close> (\<open>Returned\<close>). One step of the run
  evaluates the condition, reading \<open>stop\<close> once, or completes the body (emit
  \<open>progress(i)\<close>, then \<open>i++\<close>). A schedule interleaves steps of the run with calls
  of \<open>cancel\<close>, which may fall between any two steps, so also between the test
  and the emission. The loop variable stays below 102, far from the end of \<open>int\<close>.
\<close>

datatype Signal = Progress int | Finished

datatype Place = AtTest | InBody | Returned

record Worker =
  stop :: bool
  loop_i :: int
  place :: Place
  emitted :: "Signal list"

definition launched :: Worker where
  "launched = \<lparr>stop = False, loop_i = 0, place = AtTest, emitted = []\<rparr>"

definition cancel :: "Worker \<Rightarrow> Worker" where
  "cancel w = w\<lparr>stop := True\<rparr>"

definition run_step :: "Worker \<Rightarrow> Worker" where
  "run_step w =
     (case place w of
        AtTest \<Rightarrow>
          if loop_i w \<le> 100 \<and> \<not> stop w then w\<lparr>place := InBody\<rparr>
          else w\<lparr>place := Returned, emitted := emitted w @ [Finished]\<rparr>
      | InBody \<Rightarrow> w\<lparr>loop_i := loop_i w + 1, place := AtTest, emitted := emitted w @ [Progress (loop_i w)]\<rparr>
      | Returned \<Rightarrow> w)"

datatype Event = Step | Cancel

fun event :: "Event \<Rightarrow> Worker \<Rightarrow> Worker" where
  "event Step w = run_step w"
| "event Cancel w = cancel w"

fun schedule :: "Event list \<Rightarrow> Worker \<Rightarrow> Worker" where
  "schedule [] w = w"
| "schedule (e # es) w = schedule es (event e w)"

text \<open>The progress values among the signals emitted, in order, and the number of steps in a schedule.\<close>

fun progress_values :: "Signal list \<Rightarrow> int list" where
  "progress_values [] = []"
| "progress_values (Progress v # ss) = v # progress_values ss"
| "progress_values (Finished # ss) = progress_values ss"

fun steps :: "Event list \<Rightarrow> nat" where
  "steps [] = 0"
| "steps (Step # es) = Suc (steps es)"
| "steps (Cancel # es) = steps es"

text \<open>
  What holds of the run at every moment: the loop variable is between 0 and 101,
  at most 100 inside the body; the run has returned only with the loop variable
  at 101 or the flag set; the signals emitted are the progress values below the
  loop variable, in order, followed by \<open>finished\<close> exactly when the run has returned.
  \<open>remaining\<close> bounds the steps the run can still take.
\<close>

definition run_inv :: "Worker \<Rightarrow> bool" where
  "run_inv w =
     (0 \<le> loop_i w \<and> loop_i w \<le> 101 \<and>
      (place w = InBody \<longrightarrow> loop_i w \<le> 100) \<and>
      (place w = Returned \<longrightarrow> loop_i w = 101 \<or> stop w) \<and>
      emitted w = map Progress (map int [0..<nat (loop_i w)]) @ (if place w = Returned then [Finished] else []))"

definition remaining :: "Worker \<Rightarrow> nat" where
  "remaining w =
     (case place w of
        AtTest \<Rightarrow> 2 * nat (101 - loop_i w) + 1
      | InBody \<Rightarrow> 2 * nat (101 - loop_i w)
      | Returned \<Rightarrow> 0)"

section \<open>Properties of the row store\<close>

lemma rows_insertRowData: "rows (insertRowData r m) = rows m @ [r]"
  by (simp add: insertRowData_def beginInsertRows_def endInsertRows_def Let_def)

lemma notifications_insertRowData:
  "notifications (insertRowData r m) =
     notifications m @ [BeginInsertRows (int (length (rows m))) (int (length (rows m))), EndInsertRows]"
  by (simp add: insertRowData_def beginInsertRows_def endInsertRows_def Let_def)

lemma rows_removeLastRow: "rows (snd (removeLastRow m)) = butlast (rows m)"
  by (simp add: removeLastRow_def beginRemoveRows_def endRemoveRows_def Let_def)

lemma removeLastRow_insertRowData:
  "rows (snd (removeLastRow (insertRowData r m))) = rows m"
  by (simp add: rows_removeLastRow rows_insertRowData)

text \<open>
  C7. \<open>removeLastRow\<close> on an empty store returns \<open>false\<close> and gives back the model as
  it was: the same records and not one notification more. On a non-empty store it
  returns \<open>true\<close>, the records afterwards are the records before without the final
  one, and the notifications made are exactly the pair announcing and closing the
  removal of the last row number, \<open>length - 1\<close>.
\<close>

theorem removeLastRow_contract:
  "(rows m = [] \<longrightarrow> removeLastRow m = (False, m)) \<and>
   (rows m \<noteq> [] \<longrightarrow>
      fst (removeLastRow m) = True \<and>
      rows (snd (removeLastRow m)) @ [last (rows m)] = rows m \<and>
      notifications (snd (removeLastRow m)) =
        notifications m @
          [BeginRemoveRows (int (length (rows m)) - 1) (int (length (rows m)) - 1),
           EndRemoveRows])"
  by (simp add: removeLastRow_def beginRemoveRows_def endRemoveRows_def Let_def)

theorem removeLastRow_contract_witness:
  "removeLastRow \<lparr>rows = [], notifications = []\<rparr> = (False, \<lparr>rows = [], notifications = []\<rparr>) \<and>
   fst (removeLastRow \<lparr>rows = [[''0'', ''Item'', ''12:00:00''], [''1'', ''Item'', ''12:00:01'']],
                       notifications = []\<rparr>) = True \<and>
   rows (snd (removeLastRow \<lparr>rows = [[''0'', ''Item'', ''12:00:00''], [''1'', ''Item'', ''12:00:01'']],
                             notifications = []\<rparr>)) = [[''0'', ''Item'', ''12:00:00'']] \<and>
   notifications (snd (removeLastRow
       \<lparr>rows = [[''0'', ''Item'', ''12:00:00''], [''1'', ''Item'', ''12:00:01'']],
        notifications = []\<rparr>)) = [BeginRemoveRows 1 1, EndRemoveRows]"
  using removeLastRow_contract [of "\<lparr>rows = [], notifications = []\<rparr>"]
    removeLastRow_contract [of "\<lparr>rows = [[''0'', ''Item'', ''12:00:00''], [''1'', ''Item'', ''12:00:01'']],
                                 notifications = []\<rparr>"]
  by simp

text \<open>
  C9. When \<open>AddRowCommand::undo\<close> runs on an empty store, \<open>removeLastRow\<close> answers
  \<open>false\<close>, \<open>undo\<close> drops that answer (its result is the model alone, there is no
  error value it could give), and the model it leaves is the one it was given:
  no record and no notification is added or removed.
\<close>

theorem undo_on_empty_store_unreported:
  "rows m = [] \<Longrightarrow>
     fst (removeLastRow m) = False \<and>
     AddRowCommand_undo c m = m \<and>
     rows (AddRowCommand_undo c m) = [] \<and>
     notifications (AddRowCommand_undo c m) = notifications m"
  by (simp add: AddRowCommand_undo_def removeLastRow_def)

theorem undo_on_empty_store_unreported_witness:
  "rows \<lparr>rows = [], notifications = [BeginInsertRows 0 0, EndInsertRows, BeginRemoveRows 0 0, EndRemoveRows]\<rparr> = [] \<and>
   fst (removeLastRow \<lparr>rows = [], notifications = [BeginInsertRows 0 0, EndInsertRows, BeginRemoveRows 0 0, EndRemoveRows]\<rparr>) = False \<and>
   AddRowCommand_undo \<lparr>row = [''0'', ''Item'', ''12:00:00'']\<rparr>
       \<lparr>rows = [], notifications = [BeginInsertRows 0 0, EndInsertRows, BeginRemoveRows 0 0, EndRemoveRows]\<rparr>
     = \<lparr>rows = [], notifications = [BeginInsertRows 0 0, EndInsertRows, BeginRemoveRows 0 0, EndRemoveRows]\<rparr>"
  using undo_on_empty_store_unreported
    [of "\<lparr>rows = [], notifications = [BeginInsertRows 0 0, EndInsertRows, BeginRemoveRows 0 0, EndRemoveRows]\<rparr>"
        "\<lparr>row = [''0'', ''Item'', ''12:00:00'']\<rparr>"]
  by simp

section \<open>Properties of the undo controller\<close>

lemma rows_AddRowCommand_redo: "rows (AddRowCommand_redo c m) = rows m @ [row c]"
  by (simp add: AddRowCommand_redo_def rows_insertRowData)

lemma rows_AddRowCommand_undo: "rows (AddRowCommand_undo c m) = butlast (rows m)"
  by (simp add: AddRowCommand_undo_def rows_removeLastRow)

lemma rows_apply_directly: "rows (apply_directly ops m) = rows m @ map row ops"
  by (induction ops arbitrary: m) (simp_all add: rows_AddRowCommand_redo)

lemma in_step_initial: "in_step initial"
  by (simp add: in_step_def initial_def stack_ok_def effective_def)

lemma in_step_push: "in_step w \<Longrightarrow> in_step (push op w)"
  by (simp add: in_step_def push_def stack_ok_def effective_def Let_def rows_AddRowCommand_redo min_def)

lemma in_step_undo_call: "in_step w \<Longrightarrow> in_step (undo_call w)"
  by (auto simp add: in_step_def undo_call_def stack_ok_def effective_def rows_AddRowCommand_undo
      butlast_take map_butlast[symmetric])

lemma in_step_redo_call: "in_step w \<Longrightarrow> in_step (redo_call w)"
  by (auto simp add: in_step_def redo_call_def stack_ok_def effective_def rows_AddRowCommand_redo
      take_Suc_conv_app_nth)

lemma in_step_call: "in_step w \<Longrightarrow> in_step (call c w)"
  by (cases c) (simp_all add: in_step_push in_step_undo_call in_step_redo_call)

lemma in_step_calls: "in_step w \<Longrightarrow> in_step (calls cs w)"
  by (induction cs arbitrary: w) (simp_all add: in_step_call)

text \<open>
  C1. Whatever sequence of \<open>push\<close>, \<open>undo\<close> and \<open>redo\<close> calls is made through the
  controller, starting from the empty store and the empty history, the records
  in the store at the end are the records obtained by applying directly, in
  order, the effective operations: those of the final history before the final
  cursor.
\<close>

theorem replay_equals_effective_operations:
  "rows (model (calls cs initial)) =
     rows (apply_directly (effective (undo (calls cs initial))) (model initial))"
proof -
  have "in_step (calls cs initial)"
    by (rule in_step_calls [OF in_step_initial])
  then have "rows (model (calls cs initial)) = map row (effective (undo (calls cs initial)))"
    by (simp add: in_step_def)
  moreover have "rows (model initial) = []"
    by (simp add: initial_def)
  ultimately show ?thesis
    by (simp add: rows_apply_directly)
qed

text \<open>
  C2. For every model and every command, in any controller state that satisfies
  the controller's invariant: \<open>push\<close> appends the command's record at the end of
  the store, the command that an \<open>undo\<close> right after it reverts is that same
  command, and after that \<open>undo\<close> the records are exactly the records before the
  push and the cursor is back where it was.
\<close>

theorem undo_after_push_round_trip:
  "stack_ok (undo w) \<Longrightarrow>
     rows (model (push op w)) = rows (model w) @ [row op] \<and>
     history (undo (push op w)) ! (cursor (undo (push op w)) - 1) = op \<and>
     rows (model (undo_call (push op w))) = rows (model w) \<and>
     cursor (undo (undo_call (push op w))) = cursor (undo w)"
  by (simp add: push_def undo_call_def stack_ok_def Let_def rows_AddRowCommand_redo
      rows_AddRowCommand_undo nth_append)

text \<open>
  C3. In a history with at least one undone operation (the cursor is before the
  end), \<open>push\<close> keeps the operations before the cursor and nothing of the redo
  tail, runs the new command's \<open>redo\<close> on the model, appends the command and moves
  the cursor past it, to the end of the history; a \<open>redo\<close> right after this push
  changes nothing.
\<close>

theorem push_truncates_redo_tail:
  "cursor (undo w) < length (history (undo w)) \<Longrightarrow>
     history (undo (push op2 w)) = take (cursor (undo w)) (history (undo w)) @ [op2] \<and>
     length (history (undo (push op2 w))) = cursor (undo w) + 1 \<and>
     model (push op2 w) = AddRowCommand_redo op2 (model w) \<and>
     cursor (undo (push op2 w)) = cursor (undo w) + 1 \<and>
     cursor (undo (push op2 w)) = length (history (undo (push op2 w))) \<and>
     redo_call (push op2 w) = push op2 w"
  by (simp add: push_def redo_call_def Let_def)


theorem undo_after_push_round_trip_witness:
  "stack_ok (undo (calls [Push \<lparr>row = [''a'']\<rparr>, Push \<lparr>row = [''b'']\<rparr>, Undo] initial)) \<and>
   rows (model (calls [Push \<lparr>row = [''a'']\<rparr>, Push \<lparr>row = [''b'']\<rparr>, Undo] initial)) = [[''a'']] \<and>
   rows (model (push \<lparr>row = [''c'']\<rparr>
     (calls [Push \<lparr>row = [''a'']\<rparr>, Push \<lparr>row = [''b'']\<rparr>, Undo] initial))) = [[''a''], [''c'']] \<and>
   rows (model (undo_call (push \<lparr>row = [''c'']\<rparr>
     (calls [Push \<lparr>row = [''a'']\<rparr>, Push \<lparr>row = [''b'']\<rparr>, Undo] initial)))) = [[''a'']]"
proof -
  have ok: "stack_ok (undo (calls [Push \<lparr>row = [''a'']\<rparr>, Push \<lparr>row = [''b'']\<rparr>, Undo] initial))"
    by (simp add: initial_def push_def undo_call_def stack_ok_def Let_def)
  have before: "rows (model (calls [Push \<lparr>row = [''a'']\<rparr>, Push \<lparr>row = [''b'']\<rparr>, Undo] initial)) = [[''a'']]"
    by (simp add: initial_def push_def undo_call_def Let_def rows_AddRowCommand_redo
        rows_AddRowCommand_undo)
  show ?thesis
    using ok before undo_after_push_round_trip [OF ok, of "\<lparr>row = [''c'']\<rparr>"]
    by simp
qed

theorem push_truncates_redo_tail_witness:
  "cursor (undo \<lparr>model = \<lparr>rows = [[''a'']], notifications = []\<rparr>,
                 undo = \<lparr>history = [\<lparr>row = [''a'']\<rparr>, \<lparr>row = [''b'']\<rparr>], cursor = 1\<rparr>\<rparr>)
     < length (history (undo \<lparr>model = \<lparr>rows = [[''a'']], notifications = []\<rparr>,
                 undo = \<lparr>history = [\<lparr>row = [''a'']\<rparr>, \<lparr>row = [''b'']\<rparr>], cursor = 1\<rparr>\<rparr>)) \<and>
   undo (push \<lparr>row = [''c'']\<rparr>
           \<lparr>model = \<lparr>rows = [[''a'']], notifications = []\<rparr>,
            undo = \<lparr>history = [\<lparr>row = [''a'']\<rparr>, \<lparr>row = [''b'']\<rparr>], cursor = 1\<rparr>\<rparr>)
     = \<lparr>history = [\<lparr>row = [''a'']\<rparr>, \<lparr>row = [''c'']\<rparr>], cursor = 2\<rparr> \<and>
   redo_call (push \<lparr>row = [''c'']\<rparr>
           \<lparr>model = \<lparr>rows = [[''a'']], notifications = []\<rparr>,
            undo = \<lparr>history = [\<lparr>row = [''a'']\<rparr>, \<lparr>row = [''b'']\<rparr>], cursor = 1\<rparr>\<rparr>)
     = push \<lparr>row = [''c'']\<rparr>
           \<lparr>model = \<lparr>rows = [[''a'']], notifications = []\<rparr>,
            undo = \<lparr>history = [\<lparr>row = [''a'']\<rparr>, \<lparr>row = [''b'']\<rparr>], cursor = 1\<rparr>\<rparr>"
  using push_truncates_redo_tail
    [of "\<lparr>model = \<lparr>rows = [[''a'']], notifications = []\<rparr>,
          undo = \<lparr>history = [\<lparr>row = [''a'']\<rparr>, \<lparr>row = [''b'']\<rparr>], cursor = 1\<rparr>\<rparr>"
        "\<lparr>row = [''c'']\<rparr>"]
  by (simp add: push_def Let_def)

section \<open>Reading a field\<close>

lemma data_other_roles: "r \<noteq> DisplayRole \<Longrightarrow> data m i r = Inr Invalid"
  by (simp add: data_def)

text \<open>
  C8. The read of a field, \<open>data\<close> with the display role, is bounds-checked. For
  every store and every index its result is a variant, never the error of an
  access out of range. For a row outside \<open>[0, length)\<close>, or a row inside and a
  column outside the fields of the record in that row, the result is the empty
  variant. For a row and a column in range, the result is the variant holding
  the field stored at that row and column.
\<close>

theorem data_bounds_checked:
  "(\<exists>v. data m i DisplayRole = Inr v) \<and>
   (index_row i < 0 \<or> int (length (rows m)) \<le> index_row i \<longrightarrow>
      data m i DisplayRole = Inr Invalid) \<and>
   (0 \<le> index_row i \<and> index_row i < int (length (rows m)) \<and>
      (index_column i < 0 \<or> int (length (rows m ! nat (index_row i))) \<le> index_column i) \<longrightarrow>
      data m i DisplayRole = Inr Invalid) \<and>
   (0 \<le> k \<and> k < int (length (rows m)) \<and> 0 \<le> c \<and> c < int (length (rows m ! nat k)) \<longrightarrow>
      data m (createIndex k c) DisplayRole = Inr (StringValue (rows m ! nat k ! nat c)))"
  by (auto simp add: data_def isValid_def at_def createIndex_def)

theorem data_bounds_checked_witness:
  "data \<lparr>rows = [[''0'', ''Item'', ''12:00:00''], [''1'', ''Item'', ''12:00:05'']], notifications = []\<rparr>
        (createIndex 1 2) DisplayRole
     = Inr (StringValue ''12:00:05'') \<and>
   data \<lparr>rows = [[''0'', ''Item'', ''12:00:00''], [''1'', ''Item'', ''12:00:05'']], notifications = []\<rparr>
        (createIndex 2 1) DisplayRole = Inr Invalid \<and>
   data \<lparr>rows = [[''0'', ''Item'', ''12:00:00''], [''1'', ''Item'', ''12:00:05'']], notifications = []\<rparr>
        (createIndex 0 3) DisplayRole = Inr Invalid \<and>
   data \<lparr>rows = [[''0'', ''Item'', ''12:00:00''], [''1'', ''Item'', ''12:00:05'']], notifications = []\<rparr>
        \<lparr>index_row = - 1, index_column = - 1, index_has_model = False\<rparr> DisplayRole = Inr Invalid"
  using
    data_bounds_checked [of "\<lparr>rows = [[''0'', ''Item'', ''12:00:00''], [''1'', ''Item'', ''12:00:05'']], notifications = []\<rparr>"
      "createIndex 2 1" 1 2]
    data_bounds_checked [of "\<lparr>rows = [[''0'', ''Item'', ''12:00:00''], [''1'', ''Item'', ''12:00:05'']], notifications = []\<rparr>"
      "createIndex 0 3" 1 2]
    data_bounds_checked [of "\<lparr>rows = [[''0'', ''Item'', ''12:00:00''], [''1'', ''Item'', ''12:00:05'']], notifications = []\<rparr>"
      "\<lparr>index_row = - 1, index_column = - 1, index_has_model = False\<rparr>" 1 2]
  by (simp add: createIndex_def)

section \<open>Properties of the background task\<close>

lemma progress_values_append:
  "progress_values (xs @ ys) = progress_values xs @ progress_values ys"
  by (induction xs rule: progress_values.induct) simp_all

lemma progress_values_map_comp: "progress_values (map (Progress \<circ> f) xs) = map f xs"
  by (induction xs) simp_all

lemma run_inv_launched: "run_inv launched"
  by (simp add: run_inv_def launched_def)

lemma upt_nat_plus_one: "0 \<le> k \<Longrightarrow> [0..<nat (k + 1)] = [0..<nat k] @ [nat k]"
  by (simp add: nat_add_distrib)

lemma run_inv_run_step: "run_inv w \<Longrightarrow> run_inv (run_step w)"
  by (cases "place w") (auto simp add: run_inv_def run_step_def upt_nat_plus_one)

lemma run_inv_cancel: "run_inv w \<Longrightarrow> run_inv (cancel w)"
  by (simp add: run_inv_def cancel_def)

lemma run_inv_event: "run_inv w \<Longrightarrow> run_inv (event e w)"
  by (cases e) (simp_all add: run_inv_run_step run_inv_cancel)

lemma run_inv_schedule: "run_inv w \<Longrightarrow> run_inv (schedule es w)"
  by (induction es arbitrary: w) (simp_all add: run_inv_event)

lemma run_inv_progress_values:
  "run_inv w \<Longrightarrow> progress_values (emitted w) = map int [0..<nat (loop_i w)]"
  by (simp add: run_inv_def progress_values_append progress_values_map_comp)

lemma steps_append: "steps (es1 @ es2) = steps es1 + steps es2"
  by (induction es1 rule: steps.induct) simp_all

lemma steps_replicate_Step: "steps (replicate n Step) = n"
  by (induction n) simp_all

lemma stop_schedule: "stop (schedule es w) = (stop w \<or> Cancel \<in> set es)"
proof (induction es arbitrary: w)
  case Nil
  then show ?case by simp
next
  case (Cons e es)
  show ?case
  proof (cases e)
    case Step
    have "stop (run_step w) = stop w"
      by (cases "place w") (simp_all add: run_step_def)
    with Cons.IH [of "run_step w"] Step show ?thesis by simp
  next
    case Cancel
    with Cons.IH [of "cancel w"] show ?thesis by (simp add: cancel_def)
  qed
qed

lemma remaining_launched: "remaining launched = 203"
  by (simp add: remaining_def launched_def)

lemma remaining_run_step: "run_inv w \<Longrightarrow> remaining (run_step w) \<le> remaining w - 1"
  by (cases "place w") (auto simp add: run_inv_def run_step_def remaining_def)

lemma remaining_cancel: "remaining (cancel w) = remaining w"
  by (cases "place w") (simp_all add: remaining_def cancel_def)

lemma remaining_schedule: "run_inv w \<Longrightarrow> remaining (schedule es w) \<le> remaining w - steps es"
proof (induction es arbitrary: w)
  case Nil
  then show ?case by simp
next
  case (Cons e es)
  show ?case
  proof (cases e)
    case Step
    have "remaining (schedule es (run_step w)) \<le> remaining (run_step w) - steps es"
      by (rule Cons.IH [OF run_inv_run_step [OF Cons.prems]])
    also have "\<dots> \<le> (remaining w - 1) - steps es"
      using remaining_run_step [OF Cons.prems] by (rule diff_le_mono)
    finally show ?thesis
      using Step by simp
  next
    case Cancel
    have "remaining (schedule es (cancel w)) \<le> remaining (cancel w) - steps es"
      by (rule Cons.IH [OF run_inv_cancel [OF Cons.prems]])
    then show ?thesis
      using Cancel by (simp add: remaining_cancel)
  qed
qed

lemma remaining_0_Returned: "run_inv w \<Longrightarrow> remaining w = 0 \<Longrightarrow> place w = Returned"
  by (cases "place w") (auto simp add: run_inv_def remaining_def)

lemma count_list_append: "count_list (xs @ ys) a = count_list xs a + count_list ys a"
  by (induction xs) simp_all

lemma count_list_Progress: "count_list (map (Progress \<circ> f) xs) Finished = 0"
  by (induction xs) simp_all

text \<open>
  C4. At every moment of every run, whatever the calls of \<open>cancel\<close> and wherever
  they fall: the progress values emitted so far are 0, 1, 2, ... in this order, one
  for each number below their count, at most 101 of them, so each lies between 0
  and 100 and each is one more than the one before; and the run has returned only
  if the value 100 has been emitted or the flag \<open>stop\<close> is set.
\<close>

theorem progress_sequence:
  "progress_values (emitted (schedule es launched)) =
     map int [0..<length (progress_values (emitted (schedule es launched)))] \<and>
   length (progress_values (emitted (schedule es launched))) \<le> 101 \<and>
   (\<forall>v \<in> set (progress_values (emitted (schedule es launched))). 0 \<le> v \<and> v \<le> 100) \<and>
   (place (schedule es launched) = Returned \<longrightarrow>
      100 \<in> set (progress_values (emitted (schedule es launched))) \<or> stop (schedule es launched))"
proof -
  let ?w = "schedule es launched"
  have inv: "run_inv ?w"
    by (rule run_inv_schedule [OF run_inv_launched])
  have pv: "progress_values (emitted ?w) = map int [0..<nat (loop_i ?w)]"
    by (rule run_inv_progress_values [OF inv])
  have bounds: "0 \<le> loop_i ?w" "loop_i ?w \<le> 101"
    using inv by (simp_all add: run_inv_def)
  have len: "length (progress_values (emitted ?w)) = nat (loop_i ?w)"
    by (simp add: pv)
  have c1: "progress_values (emitted ?w) = map int [0..<length (progress_values (emitted ?w))]"
    using pv len by simp
  have c2: "length (progress_values (emitted ?w)) \<le> 101"
    using len bounds by simp
  have c3: "\<forall>v \<in> set (progress_values (emitted ?w)). 0 \<le> v \<and> v \<le> 100"
    using bounds by (auto simp add: pv)
  have c4: "place ?w = Returned \<longrightarrow> 100 \<in> set (progress_values (emitted ?w)) \<or> stop ?w"
  proof
    assume "place ?w = Returned"
    then have "loop_i ?w = 101 \<or> stop ?w"
      using inv by (simp add: run_inv_def)
    then show "100 \<in> set (progress_values (emitted ?w)) \<or> stop ?w"
      by (auto simp add: pv)
  qed
  show ?thesis
    using c1 c2 c3 c4 by blast
qed


theorem progress_sequence_witness:
  "progress_values (emitted (schedule [Step, Step, Step, Step, Cancel, Step, Step] launched)) = [0, 1] \<and>
   place (schedule [Step, Step, Step, Step, Cancel, Step, Step] launched) = Returned \<and>
   stop (schedule [Step, Step, Step, Step, Cancel, Step, Step] launched) \<and>
   place (schedule (replicate 203 Step) launched) = Returned \<and>
   \<not> stop (schedule (replicate 203 Step) launched) \<and>
   100 \<in> set (progress_values (emitted (schedule (replicate 203 Step) launched)))"
proof -
  have a: "schedule [Step, Step, Step, Step, Cancel, Step, Step] launched =
      \<lparr>stop = True, loop_i = 2, place = Returned, emitted = [Progress 0, Progress 1, Finished]\<rparr>"
    by (simp add: launched_def run_step_def cancel_def)
  have "remaining (schedule (replicate 203 Step) launched) \<le> remaining launched - steps (replicate 203 Step)"
    by (rule remaining_schedule [OF run_inv_launched])
  then have "remaining (schedule (replicate 203 Step) launched) = 0"
    by (simp add: remaining_launched steps_replicate_Step)
  with run_inv_schedule [OF run_inv_launched] have
    b: "place (schedule (replicate 203 Step) launched) = Returned"
    by (rule remaining_0_Returned)
  have c: "\<not> stop (schedule (replicate 203 Step) launched)"
    by (simp add: stop_schedule launched_def)
  show ?thesis
    using progress_sequence [of "[Step, Step, Step, Step, Cancel, Step, Step]"]
      progress_sequence [of "replicate 203 Step"] a b c
    by simp
qed

text \<open>
  C5. At every moment of every run, whatever the calls of \<open>cancel\<close> (also one before
  the first step of the run): \<open>finished\<close> has been emitted once if the run has
  returned and not at all before; when the run has returned, the signals emitted
  are its progress signals followed by \<open>finished\<close>, which is the last; and the run
  has returned once it has been given 203 steps, the number a run that nobody
  cancels takes.
\<close>

theorem exactly_one_finished_after_progress:
  "count_list (emitted (schedule es launched)) Finished =
     (if place (schedule es launched) = Returned then 1 else 0) \<and>
   (place (schedule es launched) = Returned \<longrightarrow>
      emitted (schedule es launched) =
        map Progress (progress_values (emitted (schedule es launched))) @ [Finished]) \<and>
   (203 \<le> steps es \<longrightarrow> place (schedule es launched) = Returned)"
proof -
  let ?w = "schedule es launched"
  have inv: "run_inv ?w"
    by (rule run_inv_schedule [OF run_inv_launched])
  have em: "emitted ?w = map Progress (map int [0..<nat (loop_i ?w)]) @
      (if place ?w = Returned then [Finished] else [])"
    using inv by (simp add: run_inv_def)
  have pv: "progress_values (emitted ?w) = map int [0..<nat (loop_i ?w)]"
    by (rule run_inv_progress_values [OF inv])
  have c1: "count_list (emitted ?w) Finished = (if place ?w = Returned then 1 else 0)"
    by (simp add: em count_list_append count_list_Progress)
  have c2: "place ?w = Returned \<longrightarrow>
      emitted ?w = map Progress (progress_values (emitted ?w)) @ [Finished]"
    unfolding pv using em by simp
  have c3: "203 \<le> steps es \<longrightarrow> place ?w = Returned"
  proof
    assume enough: "203 \<le> steps es"
    have "remaining ?w \<le> remaining launched - steps es"
      by (rule remaining_schedule [OF run_inv_launched])
    with enough have "remaining ?w = 0"
      by (simp add: remaining_launched)
    with inv show "place ?w = Returned"
      by (rule remaining_0_Returned)
  qed
  show ?thesis
    using c1 c2 c3 by blast
qed

theorem exactly_one_finished_after_progress_witness:
  "emitted (schedule [Cancel, Step] launched) = [Finished] \<and>
   place (schedule [Cancel, Step] launched) = Returned \<and>
   count_list (emitted (schedule [Cancel, Step] launched)) Finished = 1 \<and>
   203 \<le> steps (replicate 101 Step @ Cancel # replicate 102 Step) \<and>
   place (schedule (replicate 101 Step @ Cancel # replicate 102 Step) launched) = Returned \<and>
   count_list (emitted (schedule (replicate 101 Step @ Cancel # replicate 102 Step) launched)) Finished = 1"
proof -
  have a: "schedule [Cancel, Step] launched =
      \<lparr>stop = True, loop_i = 0, place = Returned, emitted = [Finished]\<rparr>"
    by (simp add: launched_def run_step_def cancel_def)
  have b: "203 \<le> steps (replicate 101 Step @ Cancel # replicate 102 Step)"
    by (simp add: steps_append steps_replicate_Step)
  show ?thesis
    using exactly_one_finished_after_progress [of "[Cancel, Step]"]
      exactly_one_finished_after_progress [of "replicate 101 Step @ Cancel # replicate 102 Step"] a b
    by simp
qed

lemma schedule_append: "schedule (es1 @ es2) w = schedule es2 (schedule es1 w)"
  by (induction es1 arbitrary: w) simp_all

lemma cancel_idem: "stop w \<Longrightarrow> cancel w = w"
  by (simp add: cancel_def)

lemma after_stop:
  "stop w \<Longrightarrow>
     \<exists>ext. emitted (schedule es w) = emitted w @ ext \<and>
       (progress_values ext = [] \<or> (place w = InBody \<and> progress_values ext = [loop_i w]))"
proof (induction es arbitrary: w)
  case Nil
  then show ?case by simp
next
  case (Cons e es)
  show ?case
  proof (cases e)
    case Cancel
    with Cons.IH [OF Cons.prems] Cons.prems show ?thesis
      by (simp add: cancel_idem)
  next
    case Step
    show ?thesis
    proof (cases "place w")
      case AtTest
      let ?w' = "w\<lparr>place := Returned, emitted := emitted w @ [Finished]\<rparr>"
      have rs: "run_step w = ?w'"
        using AtTest Cons.prems by (simp add: run_step_def)
      have "stop ?w'" using Cons.prems by simp
      from Cons.IH [OF this] obtain ext where
        "emitted (schedule es ?w') = emitted ?w' @ ext" "progress_values ext = []"
        by auto
      then have "emitted (schedule (e # es) w) = emitted w @ (Finished # ext) \<and>
          progress_values (Finished # ext) = []"
        using Step rs by simp
      then show ?thesis by blast
    next
      case InBody
      let ?w' = "w\<lparr>loop_i := loop_i w + 1, place := AtTest, emitted := emitted w @ [Progress (loop_i w)]\<rparr>"
      have rs: "run_step w = ?w'"
        using InBody by (simp add: run_step_def)
      have "stop ?w'" using Cons.prems by simp
      from Cons.IH [OF this] obtain ext where
        "emitted (schedule es ?w') = emitted ?w' @ ext" "progress_values ext = []"
        by auto
      then have "emitted (schedule (e # es) w) = emitted w @ (Progress (loop_i w) # ext) \<and>
          progress_values (Progress (loop_i w) # ext) = [loop_i w]"
        using Step rs by simp
      then show ?thesis using InBody by blast
    next
      case Returned
      have rs: "run_step w = w"
        using Returned by (simp add: run_step_def)
      show ?thesis
        using Cons.IH [OF Cons.prems] Step rs by simp
    qed
  qed
qed

text \<open>
  C6. Take any run, at any moment (after any schedule \<open>es1\<close>), call \<open>cancel\<close> there
  and let the run go on under any schedule \<open>es2\<close>. The signals emitted before the
  call stay as they are; among the signals emitted after the call there is at
  most one progress signal; and no progress value of the run is greater than the
  number of values emitted before the call, which is the last value emitted
  before the call plus one when there is such a value.
\<close>

theorem at_most_one_progress_after_cancel:
  "take (length (emitted (schedule es1 launched))) (emitted (schedule (es1 @ Cancel # es2) launched))
     = emitted (schedule es1 launched) \<and>
   length (progress_values (drop (length (emitted (schedule es1 launched)))
       (emitted (schedule (es1 @ Cancel # es2) launched)))) \<le> 1 \<and>
   (\<forall>v \<in> set (progress_values (emitted (schedule (es1 @ Cancel # es2) launched))).
      v \<le> int (length (progress_values (emitted (schedule es1 launched)))) \<and>
      (progress_values (emitted (schedule es1 launched)) \<noteq> [] \<longrightarrow>
         v \<le> last (progress_values (emitted (schedule es1 launched))) + 1))"
proof -
  let ?w1 = "schedule es1 launched"
  let ?w2 = "schedule (es1 @ Cancel # es2) launched"
  have inv: "run_inv ?w1"
    by (rule run_inv_schedule [OF run_inv_launched])
  have pv: "progress_values (emitted ?w1) = map int [0..<nat (loop_i ?w1)]"
    by (rule run_inv_progress_values [OF inv])
  have nonneg: "0 \<le> loop_i ?w1"
    using inv by (simp add: run_inv_def)
  have w2: "?w2 = schedule es2 (cancel ?w1)"
    by (simp add: schedule_append)
  have "stop (cancel ?w1)"
    by (simp add: cancel_def)
  from after_stop [OF this, of es2] obtain ext where
    ext: "emitted ?w2 = emitted ?w1 @ ext"
      "progress_values ext = [] \<or> progress_values ext = [loop_i ?w1]"
    by (auto simp add: w2 cancel_def)
  have c1: "take (length (emitted ?w1)) (emitted ?w2) = emitted ?w1"
    by (simp add: ext(1))
  have c2: "length (progress_values (drop (length (emitted ?w1)) (emitted ?w2))) \<le> 1"
    using ext(2) by (auto simp add: ext(1))
  have vals: "set (progress_values (emitted ?w2)) \<subseteq> {0..loop_i ?w1}"
    using ext(2) nonneg by (auto simp add: ext(1) progress_values_append pv)
  have len: "int (length (progress_values (emitted ?w1))) = loop_i ?w1"
    using nonneg by (simp add: pv)
  have lst: "progress_values (emitted ?w1) \<noteq> [] \<longrightarrow>
      last (progress_values (emitted ?w1)) + 1 = loop_i ?w1"
    using nonneg by (auto simp add: pv last_map nat_diff_distrib)
  show ?thesis
    using c1 c2 vals len lst by auto
qed


theorem at_most_one_progress_after_cancel_witness:
  "progress_values (emitted (schedule [Step, Step, Step] launched)) = [0] \<and>
   progress_values (emitted (schedule ([Step, Step, Step] @ Cancel # [Step, Step, Step]) launched)) = [0, 1] \<and>
   length (progress_values (drop (length (emitted (schedule [Step, Step, Step] launched)))
       (emitted (schedule ([Step, Step, Step] @ Cancel # [Step, Step, Step]) launched)))) \<le> 1 \<and>
   last (progress_values (emitted (schedule [Step, Step, Step] launched))) + 1 = 1"
proof -
  have a: "schedule [Step, Step, Step] launched =
      \<lparr>stop = False, loop_i = 1, place = InBody, emitted = [Progress 0]\<rparr>"
    by (simp add: launched_def run_step_def)
  have b: "schedule ([Step, Step, Step] @ Cancel # [Step, Step, Step]) launched =
      \<lparr>stop = True, loop_i = 2, place = Returned, emitted = [Progress 0, Progress 1, Finished]\<rparr>"
    by (simp add: launched_def run_step_def cancel_def)
  show ?thesis
    using at_most_one_progress_after_cancel [of "[Step, Step, Step]" "[Step, Step, Step]"] a b
    by simp
qed

section \<open>Properties of the Add Row action\<close>

lemma digit_char_inj: "a < 10 \<Longrightarrow> b < 10 \<Longrightarrow> digit_char a = digit_char b \<Longrightarrow> a = b"
proof -
  assume a: "a < 10" and b: "b < 10" and eq: "digit_char a = digit_char b"
  have d: "distinct ''0123456789''" by simp
  have "(''0123456789'' ! a = ''0123456789'' ! b) = (a = b)"
    by (rule nth_eq_iff_index_eq [OF d]) (use a b in simp_all)
  with eq show "a = b" by (simp add: digit_char_def)
qed

lemma digits_not_Nil: "digits n \<noteq> []"
  by (subst digits.simps) simp

lemma digits_inj: "digits a = digits b \<Longrightarrow> a = b"
proof (induction a arbitrary: b rule: less_induct)
  case (less a)
  show ?case
  proof (cases "a < 10")
    case a_small: True
    show ?thesis
    proof (cases "b < 10")
      case True
      with a_small less.prems show ?thesis
        by (simp add: digits.simps [of a] digits.simps [of b] digit_char_inj)
    next
      case False
      with a_small less.prems have "digits (b div 10) = []"
        by (simp add: digits.simps [of a] digits.simps [of b])
      then show ?thesis by (simp add: digits_not_Nil)
    qed
  next
    case a_big: False
    show ?thesis
    proof (cases "b < 10")
      case True
      with a_big less.prems have "digits (a div 10) = []"
        by (simp add: digits.simps [of a] digits.simps [of b])
      then show ?thesis by (simp add: digits_not_Nil)
    next
      case False
      with a_big less.prems have
        hi: "digits (a div 10) = digits (b div 10)" and
        lo: "digit_char (a mod 10) = digit_char (b mod 10)"
        by (simp_all add: digits.simps [of a] digits.simps [of b])
      from a_big have "a div 10 < a" by simp
      from less.IH [OF this hi] have d: "a div 10 = b div 10" .
      from lo have m: "a mod 10 = b mod 10"
        by (rule digit_char_inj [rotated 2]) simp_all
      have "a = 10 * (a div 10) + a mod 10" by simp
      also have "\<dots> = 10 * (b div 10) + b mod 10" by (simp only: d m)
      also have "\<dots> = b" by simp
      finally show ?thesis .
    qed
  qed
qed

lemma number_int_inj: "number (int a) = number (int b) \<Longrightarrow> a = b"
  by (simp add: number_def digits_inj)

lemma numbered_Nil: "numbered []"
  by (simp add: numbered_def)

lemma numbered_take: "numbered rs \<Longrightarrow> numbered (take c rs)"
proof -
  assume n: "numbered rs"
  have "map (\<lambda>r. (length r, take 2 r)) (take c rs) = take c (map (\<lambda>r. (length r, take 2 r)) rs)"
    by (simp add: take_map)
  also have "\<dots> = take c (map (\<lambda>k. (3, [number (int k), ''Item''])) [0..<length rs])"
    using n by (simp only: numbered_def)
  also have "\<dots> = map (\<lambda>k. (3, [number (int k), ''Item''])) [0..<length (take c rs)]"
    by (simp add: take_map min_def)
  finally show ?thesis
    by (simp only: numbered_def)
qed

lemma numbered_snoc:
  "numbered rs \<Longrightarrow> numbered (rs @ [[number (int (length rs)), ''Item'', now]])"
  by (simp add: numbered_def)

lemma consistent_initial: "consistent initial"
  by (simp add: consistent_def in_step_initial) (simp add: initial_def numbered_Nil)

lemma in_step_rowCount: "in_step w \<Longrightarrow> rowCount (model w) = int (cursor (undo w))"
  by (simp add: in_step_def rowCount_def effective_def stack_ok_def)

lemma rows_add_clicked:
  "rows (model (add_clicked now w)) = rows (model w) @ [[number (rowCount (model w)), ''Item'', now]]"
  by (simp add: add_clicked_def push_def Let_def rows_AddRowCommand_redo)

lemma consistent_add_clicked: "consistent w \<Longrightarrow> consistent (add_clicked now w)"
proof -
  assume c: "consistent w"
  then have s: "in_step w" and n: "numbered (map row (history (undo w)))"
    by (simp_all add: consistent_def)
  from s have le: "cursor (undo w) \<le> length (history (undo w))"
    by (simp add: in_step_def stack_ok_def)
  have len: "length (take (cursor (undo w)) (map row (history (undo w)))) = cursor (undo w)"
    using le by simp
  have "numbered (take (cursor (undo w)) (map row (history (undo w))))"
    by (rule numbered_take [OF n])
  then have "numbered (take (cursor (undo w)) (map row (history (undo w))) @
      [[number (int (length (take (cursor (undo w)) (map row (history (undo w)))))), ''Item'', now]])"
    by (rule numbered_snoc)
  then have "numbered (take (cursor (undo w)) (map row (history (undo w))) @
      [[number (int (cursor (undo w))), ''Item'', now]])"
    by (simp only: len)
  then have "numbered (map row (history (undo (add_clicked now w))))"
    by (simp add: add_clicked_def push_def Let_def in_step_rowCount [OF s] take_map)
  moreover have "in_step (add_clicked now w)"
    unfolding add_clicked_def by (rule in_step_push [OF s])
  ultimately show ?thesis
    by (simp add: consistent_def)
qed

lemma consistent_undo_call: "consistent w \<Longrightarrow> consistent (undo_call w)"
  by (simp add: consistent_def in_step_undo_call) (simp add: undo_call_def)

lemma consistent_redo_call: "consistent w \<Longrightarrow> consistent (redo_call w)"
  by (simp add: consistent_def in_step_redo_call) (simp add: redo_call_def)

lemma consistent_user_action: "consistent w \<Longrightarrow> consistent (user_action a w)"
  by (cases a) (simp_all add: consistent_add_clicked consistent_undo_call consistent_redo_call)

lemma consistent_user_actions: "consistent w \<Longrightarrow> consistent (user_actions as w)"
  by (induction as arbitrary: w) (simp_all add: consistent_user_action)

lemma consistent_rows: "consistent w \<Longrightarrow> numbered (rows (model w))"
proof -
  assume c: "consistent w"
  then have "numbered (take (cursor (undo w)) (map row (history (undo w))))"
    by (simp add: consistent_def numbered_take)
  with c show ?thesis
    by (simp add: consistent_def in_step_def effective_def take_map)
qed

lemma numbered_ids: "numbered rs \<Longrightarrow> map hd rs = map (\<lambda>k. number (int k)) [0..<length rs]"
proof -
  assume n: "numbered rs"
  have "map hd rs = map (\<lambda>p. hd (snd p)) (map (\<lambda>r. (length r, take 2 r)) rs)"
    by (simp add: comp_def)
  also have "\<dots> = map (\<lambda>p. hd (snd p)) (map (\<lambda>k. (3::nat, [number (int k), ''Item''])) [0..<length rs])"
    using n by (simp only: numbered_def)
  also have "\<dots> = map (\<lambda>k. number (int k)) [0..<length rs]"
    by (simp add: comp_def)
  finally show ?thesis .
qed

lemma distinct_numbers: "distinct (map (\<lambda>k. number (int k)) [0..<n])"
  by (simp add: distinct_map inj_on_def number_int_inj)


lemma numbered_first_two:
  "numbered rs \<Longrightarrow> map (take 2) rs = map (\<lambda>k. [number (int k), ''Item'']) [0..<length rs]"
proof -
  assume n: "numbered rs"
  have "map (take 2) rs = map snd (map (\<lambda>r. (length r, take 2 r)) rs)"
    by (simp add: comp_def)
  also have "\<dots> = map snd (map (\<lambda>k. (3::nat, [number (int k), ''Item''])) [0..<length rs])"
    using n by (simp only: numbered_def)
  also have "\<dots> = map (\<lambda>k. [number (int k), ''Item'']) [0..<length rs]"
    by (simp add: comp_def)
  finally show ?thesis .
qed

text \<open>
  C10 (amended statement). The record that the Add Row action appends has the
  decimal string of the row count at the moment of the action as its first
  field, \<open>"Item"\<close> as its second and the time as its third. After any sequence of
  Add Row, Undo and Redo actions on the main window as constructed, the first
  two fields of the record at each position of the store are the decimal string
  of that position and \<open>"Item"\<close>; so the ID fields in the store are pairwise
  different.
\<close>

theorem add_row_ids:
  "rows (model (add_clicked now w)) =
     rows (model w) @ [[number (rowCount (model w)), ''Item'', now]] \<and>
   map (take 2) (rows (model (user_actions as initial))) =
     map (\<lambda>k. [number (int k), ''Item'']) [0..<length (rows (model (user_actions as initial)))] \<and>
   map hd (rows (model (user_actions as initial))) =
     map (\<lambda>k. number (int k)) [0..<length (rows (model (user_actions as initial)))] \<and>
   distinct (map hd (rows (model (user_actions as initial))))"
proof -
  have "consistent (user_actions as initial)"
    by (rule consistent_user_actions [OF consistent_initial])
  then have n: "numbered (rows (model (user_actions as initial)))"
    by (rule consistent_rows)
  have ids: "map hd (rows (model (user_actions as initial))) =
      map (\<lambda>k. number (int k)) [0..<length (rows (model (user_actions as initial)))]"
    by (rule numbered_ids [OF n])
  have "distinct (map hd (rows (model (user_actions as initial))))"
    unfolding ids by (rule distinct_numbers)
  with ids numbered_first_two [OF n] rows_add_clicked show ?thesis
    by simp
qed

text \<open>
  The claim C10 as first stated concludes that after undo and redo the ID field
  need not be unique nor equal to the record's position. In this interleaving
  of Add Row with Undo and Redo, which creates four records and the ID \<open>1\<close>
  three times, the store ends with two records whose IDs are their positions.
\<close>

theorem add_row_ids_counterexample:
  "rows (model (user_actions
      [AddRow ''12:00:01'', AddRow ''12:00:02'', EditUndo, AddRow ''12:00:03'',
       EditUndo, EditUndo, EditRedo, AddRow ''12:00:04'', EditRedo] initial)) =
     [[''0'', ''Item'', ''12:00:01''], [''1'', ''Item'', ''12:00:04'']] \<and>
   number 0 = ''0'' \<and> number 1 = ''1''"
  by (simp add: add_clicked_def push_def undo_call_def redo_call_def initial_def Let_def
      rows_AddRowCommand_redo rows_AddRowCommand_undo rowCount_def number_def
      digits.simps digit_char_def AddRowCommand_redo_def AddRowCommand_undo_def
      insertRowData_def removeLastRow_def beginInsertRows_def endInsertRows_def
      beginRemoveRows_def endRemoveRows_def)

end
